theory Spec2Isabelle
  imports Complex_Main "HOL-Library.Word"
begin

unbundle bit_operations_syntax

section \<open>Digital hearing aid: gain control and dynamic range compression\<close>

text \<open>
  A shallow embedding of \<^verbatim>\<open>pico_hearing_aid_digital.py\<close>. Python integers are
  \<^typ>\<open>int\<close>, the bytes of the \<^verbatim>\<open>bytearray\<close> are \<^typ>\<open>8 word\<close>, and Python
  floats are modelled by \<^typ>\<open>real\<close>: arithmetic is exact, rounding, infinities and
  NaN are not represented. The module-level variables form one record, threaded
  through every function that reads or assigns them.
\<close>

subsection \<open>Configuration (lines 28--48, 170)\<close>

definition SAMPLE_RATE :: real where
  "SAMPLE_RATE = 16000"

definition CHUNK_SIZE :: nat where
  "CHUNK_SIZE = 512"

definition COMPRESS_THRESHOLD :: real where
  "COMPRESS_THRESHOLD = 500000"

definition COMPRESS_RATIO :: real where
  "COMPRESS_RATIO = 3"

definition MIN_TIME_MS :: real where
  "MIN_TIME_MS = 5"

definition MAX_TIME_MS :: real where
  "MAX_TIME_MS = 200"

definition MIN_GAIN :: real where
  "MIN_GAIN = 1 / 2"

definition MAX_GAIN :: real where
  "MAX_GAIN = 8"

definition POT_READ_INTERVAL :: nat where
  "POT_READ_INTERVAL = 20"

subsection \<open>Program state (lines 81--92, 169) and the two I2S peripherals\<close>

type_synonym byte = "8 word"

record state =
  audio_buffer :: "byte list"
  envelope_left :: real
  envelope_right :: real
  current_gain :: real
  attack_coeff :: real
  release_coeff :: real
  loop_count :: nat
  dac_out :: "byte list list"  \<comment> \<open>every argument of \<^verbatim>\<open>audio_out.write\<close>, in order\<close>
  in_deinit :: nat  \<comment> \<open>number of calls of \<^verbatim>\<open>audio_in.deinit\<close>\<close>
  out_deinit :: nat  \<comment> \<open>number of calls of \<^verbatim>\<open>audio_out.deinit\<close>\<close>
  frames_done :: nat  \<comment> \<open>history variable: completed runs of the body of the \<^verbatim>\<open>for\<close> loop\<close>

definition initial_state :: state where
  "initial_state =
     \<lparr>audio_buffer = replicate CHUNK_SIZE 0,
      envelope_left = 0,
      envelope_right = 0,
      current_gain = 1,
      attack_coeff = 1 / 10,
      release_coeff = 1 / 100,
      loop_count = 0,
      dac_out = [],
      in_deinit = 0,
      out_deinit = 0,
      frames_done = 0\<rparr>"

subsection \<open>\<^verbatim>\<open>read_pots\<close> (lines 94--118)\<close>

text \<open>
  The two arguments are what \<^verbatim>\<open>pot_gain.read_u16()\<close> and
  \<^verbatim>\<open>pot_compress.read_u16()\<close> return. The result is the returned pair
  \<^verbatim>\<open>(current_gain, time_ms)\<close> and the state with the assigned globals.
\<close>

definition read_pots :: "int \<Rightarrow> int \<Rightarrow> state \<Rightarrow> (real \<times> real) \<times> state" where
  "read_pots gain_raw compress_raw s =
     (let gain_normalized = real_of_int gain_raw / 65535;
          g = MIN_GAIN + gain_normalized * (MAX_GAIN - MIN_GAIN);
          s1 = s\<lparr>current_gain := g\<rparr>;
          compress_normalized = real_of_int compress_raw / 65535;
          time_ms = MIN_TIME_MS + compress_normalized * (MAX_TIME_MS - MIN_TIME_MS);
          samples_per_time = (time_ms / 1000) * SAMPLE_RATE;
          s2 = (if samples_per_time > 0
                then s1\<lparr>attack_coeff := 1 / samples_per_time,
                        release_coeff := 1 / samples_per_time\<rparr>
                else s1)
      in ((g, time_ms), s2))"

subsection \<open>\<^verbatim>\<open>compress_sample\<close> (lines 120--158)\<close>

text \<open>Python's \<^verbatim>\<open>int(x)\<close> on a float truncates towards zero.\<close>

definition py_int :: "real \<Rightarrow> int" where
  "py_int x = (if x < 0 then \<lceil>x\<rceil> else \<lfloor>x\<rfloor>)"

text \<open>Lines 128--133: the envelope follower.\<close>

definition envelope_update :: "real \<Rightarrow> real \<Rightarrow> int \<Rightarrow> real \<Rightarrow> real" where
  "envelope_update attack release abs_sample envelope =
     (if real_of_int abs_sample > envelope
      then envelope + attack * (real_of_int abs_sample - envelope)
      else envelope + release * (real_of_int abs_sample - envelope))"

text \<open>Lines 136--143: the gain reduction computed from the updated envelope.\<close>

definition over_threshold :: "real \<Rightarrow> real \<Rightarrow> real" where
  "over_threshold threshold envelope = envelope / threshold"

definition compressed_ratio :: "real \<Rightarrow> real \<Rightarrow> real \<Rightarrow> real" where
  "compressed_ratio threshold ratio envelope =
     1 + (over_threshold threshold envelope - 1) / ratio"

definition comp_gain :: "real \<Rightarrow> real \<Rightarrow> real \<Rightarrow> real" where
  "comp_gain threshold ratio envelope =
     (if envelope > threshold
      then threshold * compressed_ratio threshold ratio envelope / envelope
      else 1)"

text \<open>Lines 152--156: clipping to the symmetric 24-bit range.\<close>

definition max_val :: int where
  "max_val = 0x7FFFFF"

definition clip :: "int \<Rightarrow> int" where
  "clip output =
     (if output > max_val then max_val
      else if output < - max_val then - max_val
      else output)"

text \<open>
  The function body with the threshold, the ratio and the two coefficients (globals
  of the module) as parameters.
\<close>

definition compress_sample_cfg ::
  "real \<Rightarrow> real \<Rightarrow> real \<Rightarrow> real \<Rightarrow> int \<Rightarrow> real \<Rightarrow> real \<Rightarrow> int \<times> real" where
  "compress_sample_cfg threshold ratio attack release sample envelope gain =
     (let abs_sample = \<bar>sample\<bar>;
          envelope' = envelope_update attack release abs_sample envelope;
          total_gain = gain * comp_gain threshold ratio envelope';
          output = py_int (real_of_int sample * total_gain)
      in (clip output, envelope'))"

definition compress_sample :: "state \<Rightarrow> int \<Rightarrow> real \<Rightarrow> real \<Rightarrow> int \<times> real" where
  "compress_sample s sample envelope gain =
     compress_sample_cfg COMPRESS_THRESHOLD COMPRESS_RATIO (attack_coeff s) (release_coeff s)
       sample envelope gain"

subsection \<open>The sample codec (lines 188--229)\<close>

text \<open>Lines 191--195: four bytes, little-endian, as a non-negative integer.\<close>

definition read_word :: "byte list \<Rightarrow> nat \<Rightarrow> int" where
  "read_word buf idx =
     uint (buf ! idx) OR push_bit 8 (uint (buf ! (idx + 1))) OR
     push_bit 16 (uint (buf ! (idx + 2))) OR push_bit 24 (uint (buf ! (idx + 3)))"

text \<open>Lines 198--201: the two's-complement reading of the 32-bit word.\<close>

definition to_signed :: "int \<Rightarrow> int" where
  "to_signed w = (if w \<ge> 0x80000000 then w - 0x100000000 else w)"

text \<open>Lines 204--205: \<^verbatim>\<open>>> 8\<close>, an arithmetic shift on Python integers.\<close>

definition decode_sample :: "byte list \<Rightarrow> nat \<Rightarrow> int" where
  "decode_sample buf idx = drop_bit 8 (to_signed (read_word buf idx))"

text \<open>Lines 216--219: back to the unsigned reading.\<close>

definition to_unsigned :: "int \<Rightarrow> int" where
  "to_unsigned w = (if w < 0 then w + 0x100000000 else w)"

text \<open>Lines 222--229: the four bytes of one word are stored back.\<close>

definition write_word :: "byte list \<Rightarrow> nat \<Rightarrow> int \<Rightarrow> byte list" where
  "write_word buf idx w =
     buf[idx := word_of_int (w AND 0xFF),
         idx + 1 := word_of_int (drop_bit 8 w AND 0xFF),
         idx + 2 := word_of_int (drop_bit 16 w AND 0xFF),
         idx + 3 := word_of_int (drop_bit 24 w AND 0xFF)]"

text \<open>Lines 212--229 for one channel: \<^verbatim>\<open><< 8\<close>, sign handling, store.\<close>

definition encode_sample :: "byte list \<Rightarrow> nat \<Rightarrow> int \<Rightarrow> byte list" where
  "encode_sample buf idx out = write_word buf idx (to_unsigned (push_bit 8 out))"

subsection \<open>The main loop (lines 172--241)\<close>

datatype exn = KeyboardInterrupt | IndexError

text \<open>
  The body of the \<^verbatim>\<open>for\<close> loop for frame \<open>i\<close>. Indexing the bytearray past its end
  raises; all eight reads come before the first assignment. An exception leaves the
  globals as they are at that moment, so the failure carries the state.
\<close>

type_synonym outcome = "exn \<times> state + state"

definition process_frame :: "nat \<Rightarrow> state \<Rightarrow> outcome" where
  "process_frame i s =
     (let idx = i * 8; buf = audio_buffer s in
      if length buf < idx + 8 then Inl (IndexError, s)
      else
        let left_24 = decode_sample buf idx;
            right_24 = decode_sample buf (idx + 4);
            (left_out, env_l) = compress_sample s left_24 (envelope_left s) (current_gain s);
            s1 = s\<lparr>envelope_left := env_l\<rparr>;
            (right_out, env_r) =
               compress_sample s1 right_24 (envelope_right s1) (current_gain s1);
            s2 = s1\<lparr>envelope_right := env_r\<rparr>;
            buf' = encode_sample (encode_sample buf idx left_out) (idx + 4) right_out
        in Inr (s2\<lparr>audio_buffer := buf', frames_done := frames_done s2 + 1\<rparr>))"

text \<open>\<^verbatim>\<open>for i in range(...)\<close>: the body for each index in turn, stopping at an exception.\<close>

fun for_frames :: "nat list \<Rightarrow> state \<Rightarrow> outcome" where
  "for_frames [] s = Inr s"
| "for_frames (i # rest) s =
     (case process_frame i s of Inl e \<Rightarrow> Inl e | Inr s' \<Rightarrow> for_frames rest s')"

text \<open>Lines 185--229.\<close>

definition num_frames :: "nat \<Rightarrow> nat" where
  "num_frames num_read = num_read div 8"

definition process_samples :: "nat \<Rightarrow> state \<Rightarrow> outcome" where
  "process_samples num_read s = for_frames [0..<num_frames num_read] s"

text \<open>
  What the environment supplies to one pass of the \<^verbatim>\<open>while\<close> loop: the bytes the
  microphone driver has ready for \<^verbatim>\<open>readinto\<close>, and the readings the two
  potentiometers would give if \<^verbatim>\<open>read_pots\<close> is called.
\<close>

record chunk_input =
  data :: "byte list"
  pot_gain :: int
  pot_compress :: int

text \<open>
  Line 175: \<^verbatim>\<open>readinto\<close> fills the buffer from its start with at most as many bytes
  as the buffer holds and returns how many it stored.
\<close>

definition readinto :: "byte list \<Rightarrow> state \<Rightarrow> nat \<times> state" where
  "readinto bytes s =
     (let n = min (length bytes) (length (audio_buffer s))
      in (n, s\<lparr>audio_buffer := take n bytes @ drop n (audio_buffer s)\<rparr>))"

text \<open>Lines 179--182.\<close>

definition refresh_controls :: "chunk_input \<Rightarrow> state \<Rightarrow> state" where
  "refresh_controls inp s =
     (let s1 = s\<lparr>loop_count := loop_count s + 1\<rparr>
      in if loop_count s1 \<ge> POT_READ_INTERVAL
         then snd (read_pots (pot_gain inp) (pot_compress inp) (s1\<lparr>loop_count := 0\<rparr>))
         else s1)"

text \<open>Line 232.\<close>

definition write_out :: "nat \<Rightarrow> state \<Rightarrow> state" where
  "write_out num_read s = s\<lparr>dac_out := dac_out s @ [take num_read (audio_buffer s)]\<rparr>"

text \<open>One complete pass of the body of \<^verbatim>\<open>while True\<close> (lines 175--232).\<close>

definition loop_body :: "chunk_input \<Rightarrow> state \<Rightarrow> outcome" where
  "loop_body inp s =
     (let (num_read, s1) = readinto (data inp) s in
      if num_read > 0
      then (case process_samples num_read (refresh_controls inp s1) of
              Inl e \<Rightarrow> Inl e
            | Inr s2 \<Rightarrow> Inr (write_out num_read s2))
      else Inr s1)"

text \<open>
  A \<^verbatim>\<open>KeyboardInterrupt\<close> is raised asynchronously. The places of one pass at which
  the model lets it arrive: before the read, after the read, after the controls were
  refreshed and \<open>k\<close> frames of the chunk were processed, and after the last frame
  before the write.
\<close>

datatype point = BeforeRead | AfterRead | InChunk nat | BeforeWrite

text \<open>
  The pass that is cut short: it runs up to the given place and ends in the exception
  raised there, or in an earlier exception of its own.
\<close>

definition interrupted_body :: "point \<Rightarrow> chunk_input \<Rightarrow> state \<Rightarrow> exn \<times> state" where
  "interrupted_body p inp s =
     (case p of
        BeforeRead \<Rightarrow> (KeyboardInterrupt, s)
      | AfterRead \<Rightarrow> (KeyboardInterrupt, snd (readinto (data inp) s))
      | InChunk k \<Rightarrow>
          (let (num_read, s1) = readinto (data inp) s in
           if num_read > 0
           then (case for_frames [0..<min k (num_frames num_read)] (refresh_controls inp s1) of
                   Inl raised \<Rightarrow> raised
                 | Inr s2 \<Rightarrow> (KeyboardInterrupt, s2))
           else (KeyboardInterrupt, s1))
      | BeforeWrite \<Rightarrow>
          (let (num_read, s1) = readinto (data inp) s in
           if num_read > 0
           then (case process_samples num_read (refresh_controls inp s1) of
                   Inl raised \<Rightarrow> raised
                 | Inr s2 \<Rightarrow> (KeyboardInterrupt, s2))
           else (KeyboardInterrupt, s1)))"

text \<open>
  Lines 172--232, the \<^verbatim>\<open>try\<close> block. \<^verbatim>\<open>while True\<close> has no exit of its own, so
  a run that ends is a number of complete passes followed by one that an exception cuts
  short; the result is that exception and the state it leaves.
\<close>

fun while_true :: "chunk_input list \<Rightarrow> chunk_input \<Rightarrow> point \<Rightarrow> state \<Rightarrow> exn \<times> state" where
  "while_true [] final p s = interrupted_body p final s"
| "while_true (inp # rest) final p s =
     (case loop_body inp s of
        Inl raised \<Rightarrow> raised
      | Inr s' \<Rightarrow> while_true rest final p s')"

text \<open>
  Lines 172--241: \<^verbatim>\<open>except KeyboardInterrupt\<close> swallows the interrupt, any other
  exception stays pending, and the \<^verbatim>\<open>finally\<close> block runs in both cases.
\<close>

definition main :: "chunk_input list \<Rightarrow> chunk_input \<Rightarrow> point \<Rightarrow> state \<Rightarrow> exn option \<times> state" where
  "main passes final p s =
     (let (e, s1) = while_true passes final p s;
          pending = (case e of KeyboardInterrupt \<Rightarrow> None | IndexError \<Rightarrow> Some e);
          s2 = s1\<lparr>in_deinit := in_deinit s1 + 1\<rparr>;
          s3 = s2\<lparr>out_deinit := out_deinit s2 + 1\<rparr>
      in (pending, s3))"

subsection \<open>Auxiliary notions used in the statements\<close>

text \<open>
  The gain as the specification words it: the normalised reading is clamped to
  \<open>[0, 1]\<close> before the interpolation. This definition follows the specification,
  not the source, and exists to be compared with \<^const>\<open>read_pots\<close>.
\<close>

definition spec_clamped_gain :: "int \<Rightarrow> real" where
  "spec_clamped_gain raw =
     MIN_GAIN + min 1 (max 0 (real_of_int raw / 65535)) * (MAX_GAIN - MIN_GAIN)"

text \<open>The state an outcome leaves behind, whether or not an exception was raised.\<close>

definition outcome_state :: "outcome \<Rightarrow> state" where
  "outcome_state r = (case r of Inl (e, s) \<Rightarrow> s | Inr s \<Rightarrow> s)"

text \<open>Both smoothing coefficients lie in \<open>(0, 1]\<close>.\<close>

definition unit_coeffs :: "state \<Rightarrow> bool" where
  "unit_coeffs s \<longleftrightarrow>
     0 < attack_coeff s \<and> attack_coeff s \<le> 1 \<and> 0 < release_coeff s \<and> release_coeff s \<le> 1"

text \<open>The range of \<^verbatim>\<open>read_u16\<close>.\<close>

definition u16 :: "int \<Rightarrow> bool" where
  "u16 x \<longleftrightarrow> 0 \<le> x \<and> x \<le> 65535"

text \<open>The invariant of the loop that keeps both envelopes non-negative.\<close>

definition env_invariant :: "state \<Rightarrow> bool" where
  "env_invariant s \<longleftrightarrow> unit_coeffs s \<and> 0 \<le> envelope_left s \<and> 0 \<le> envelope_right s"

section \<open>Properties\<close>

subsection \<open>Clipping and the output range\<close>

lemma clip_bounds: "- max_val \<le> clip x \<and> clip x \<le> max_val"
  by (simp add: clip_def max_val_def)

lemma clip_abs: "\<bar>clip x\<bar> \<le> max_val"
  by (auto simp: clip_def max_val_def)

lemma clip_id: "- max_val \<le> x \<Longrightarrow> x \<le> max_val \<Longrightarrow> clip x = x"
  by (simp add: clip_def)

lemma py_int_of_int: "py_int (real_of_int x) = x"
  by (simp add: py_int_def)

text \<open>
  C5: for every input sample, every envelope state and every user gain (in particular
  every gain \<open>\<ge> 0\<close>), the output sample returned by \<^verbatim>\<open>compress_sample\<close> has magnitude
  at most \<open>2^23 - 1\<close>.
\<close>

theorem output_saturated:
  "\<bar>fst (compress_sample s sample envelope gain)\<bar> \<le> 2 ^ 23 - 1"
proof -
  have "fst (compress_sample s sample envelope gain) =
      clip (py_int (real_of_int sample * (gain * comp_gain COMPRESS_THRESHOLD COMPRESS_RATIO
           (envelope_update (attack_coeff s) (release_coeff s) \<bar>sample\<bar> envelope))))"
    by (simp add: compress_sample_def compress_sample_cfg_def Let_def)
  moreover have "max_val = 2 ^ 23 - 1"
    by (simp add: max_val_def)
  ultimately show ?thesis
    using clip_abs by metis
qed

subsection \<open>The gain reduction\<close>









text \<open>
  C6: sample 1000000, user gain 1, threshold 500000, ratio 3, prior envelope 1000000:
  the envelope stays at 1000000, the over-threshold ratio is 2, the compressed ratio
  is \<open>1 + 1/3\<close>, the compression gain is \<open>2/3\<close> (within 0.001 of 0.667), and the
  returned sample is 666666 (within 500 of 667000), which the clipping leaves alone.
\<close>

theorem scenario_above_threshold:
  "envelope_update (attack_coeff s) (release_coeff s) \<bar>1000000\<bar> 1000000 = 1000000 \<and>
   over_threshold COMPRESS_THRESHOLD 1000000 = 2 \<and>
   compressed_ratio COMPRESS_THRESHOLD COMPRESS_RATIO 1000000 = 1 + 1 / 3 \<and>
   comp_gain COMPRESS_THRESHOLD COMPRESS_RATIO 1000000 = 2 / 3 \<and>
   \<bar>comp_gain COMPRESS_THRESHOLD COMPRESS_RATIO 1000000 - 667 / 1000\<bar> < 1 / 1000 \<and>
   py_int (real_of_int 1000000 * (1 * comp_gain COMPRESS_THRESHOLD COMPRESS_RATIO 1000000)) = 666666 \<and>
   compress_sample s 1000000 1000000 1 = (666666, 1000000) \<and>
   \<bar>fst (compress_sample s 1000000 1000000 1) - 667000\<bar> < 500"
  by (simp add: compress_sample_def compress_sample_cfg_def envelope_update_def comp_gain_def
      compressed_ratio_def over_threshold_def COMPRESS_THRESHOLD_def COMPRESS_RATIO_def
      py_int_def clip_def max_val_def Let_def)

subsection \<open>The controls\<close>

text \<open>
  C4, as amended: \<^verbatim>\<open>read_pots\<close> does not clamp. For every reading the gain is
  \<open>MIN_GAIN + (raw / 65535) * (MAX_GAIN - MIN_GAIN)\<close>, which is also the returned first
  component. For a reading in \<open>0..65535\<close>, the range of \<^verbatim>\<open>read_u16\<close>, it agrees with
  the clamped interpolation of the specification and lies in \<open>[MIN_GAIN, MAX_GAIN]\<close>;
  a reading of 0 gives exactly \<open>MIN_GAIN\<close> and a reading of 65535 exactly \<open>MAX_GAIN\<close>.
\<close>

theorem read_pots_gain:
  "(0 \<le> gain_raw \<and> gain_raw \<le> 65535 \<longrightarrow>
      current_gain (snd (read_pots gain_raw compress_raw s)) = spec_clamped_gain gain_raw \<and>
      MIN_GAIN \<le> current_gain (snd (read_pots gain_raw compress_raw s)) \<and>
      current_gain (snd (read_pots gain_raw compress_raw s)) \<le> MAX_GAIN) \<and>
   current_gain (snd (read_pots gain_raw compress_raw s)) =
      MIN_GAIN + (real_of_int gain_raw / 65535) * (MAX_GAIN - MIN_GAIN) \<and>
   fst (fst (read_pots gain_raw compress_raw s)) = current_gain (snd (read_pots gain_raw compress_raw s)) \<and>
   current_gain (snd (read_pots 0 compress_raw s)) = MIN_GAIN \<and>
   current_gain (snd (read_pots 65535 compress_raw s)) = MAX_GAIN"
proof -
  have g: "current_gain (snd (read_pots r compress_raw s)) =
      MIN_GAIN + (real_of_int r / 65535) * (MAX_GAIN - MIN_GAIN)" for r
    by (simp add: read_pots_def Let_def)
  have f: "fst (fst (read_pots gain_raw compress_raw s)) =
      MIN_GAIN + (real_of_int gain_raw / 65535) * (MAX_GAIN - MIN_GAIN)"
    by (simp add: read_pots_def Let_def)
  have r: "spec_clamped_gain gain_raw = MIN_GAIN + (real_of_int gain_raw / 65535) * (MAX_GAIN - MIN_GAIN)
      \<and> MIN_GAIN \<le> MIN_GAIN + (real_of_int gain_raw / 65535) * (MAX_GAIN - MIN_GAIN)
      \<and> MIN_GAIN + (real_of_int gain_raw / 65535) * (MAX_GAIN - MIN_GAIN) \<le> MAX_GAIN"
    if "0 \<le> gain_raw" "gain_raw \<le> 65535"
    using that by (simp add: spec_clamped_gain_def MIN_GAIN_def MAX_GAIN_def)
  show ?thesis
    using r by (simp add: g f)
qed

theorem read_pots_gain_witness:
  "current_gain (snd (read_pots 13107 0 initial_state)) = 2 \<and>
   spec_clamped_gain 13107 = 2"
  using read_pots_gain [of 13107 0 initial_state]
  by (simp add: MIN_GAIN_def MAX_GAIN_def)

text \<open>
  The claim as first worded, over all non-negative readings, fails at 131070: the gain
  is 15.5, above \<open>MAX_GAIN\<close>, where the clamped interpolation gives 8.
\<close>

theorem unclamped_gain_counterexample:
  "current_gain (snd (read_pots 131070 0 initial_state)) = 31 / 2 \<and>
   spec_clamped_gain 131070 = 8 \<and>
   current_gain (snd (read_pots 131070 0 initial_state)) \<noteq> spec_clamped_gain 131070 \<and>
   \<not> current_gain (snd (read_pots 131070 0 initial_state)) \<le> MAX_GAIN"
  by (simp add: read_pots_def spec_clamped_gain_def MIN_GAIN_def MAX_GAIN_def Let_def)

text \<open>
  Once \<^verbatim>\<open>read_pots\<close> has run with a reading in the 16-bit range, both coefficients
  hold the same value (line 116: ``Same as attack per user request'').
\<close>

lemma read_pots_coeffs_equal:
  assumes "u16 compress_raw"
  shows "attack_coeff (snd (read_pots gain_raw compress_raw s)) =
         release_coeff (snd (read_pots gain_raw compress_raw s))"
proof -
  from assms have "0 \<le> real_of_int compress_raw / 65535 * 195"
    by (simp add: u16_def)
  then have "0 < (MIN_TIME_MS + real_of_int compress_raw / 65535 * (MAX_TIME_MS - MIN_TIME_MS))
      / 1000 * SAMPLE_RATE"
    by (simp add: MIN_TIME_MS_def MAX_TIME_MS_def SAMPLE_RATE_def)
  then show ?thesis
    by (simp add: read_pots_def Let_def)
qed

text \<open>
  C3: the claim is that the attack and the release coefficient are equal at every
  point of processing, also before the first control refresh. The start values are
  0.1 and 0.01, and the first pass of the loop does not refresh them, whatever the
  potentiometers read. With them the envelope rises with 0.1 (from 0 towards 1000 to
  100) and falls with 0.01 (from 100 towards 0 to 99): a first chunk of two frames
  whose left samples are 1000 and 0 leaves the left envelope at 99, not at the 90 that
  equal coefficients of 0.1 would give.
\<close>

theorem initial_coefficients_differ:
  "attack_coeff initial_state = 1 / 10 \<and>
   release_coeff initial_state = 1 / 100 \<and>
   attack_coeff initial_state \<noteq> release_coeff initial_state \<and>
   attack_coeff (refresh_controls inp initial_state) \<noteq>
     release_coeff (refresh_controls inp initial_state) \<and>
   snd (compress_sample initial_state 1000 0 1) = 100 \<and>
   snd (compress_sample initial_state 0 100 1) = 99 \<and>
   decode_sample [0, 0xE8, 3, 0] 0 = 1000 \<and>
   envelope_left (outcome_state (loop_body
      \<lparr>data = [0, 0xE8, 3, 0, 0, 0, 0, 0, 0, 0, 0, 0, 0, 0, 0, 0],
        pot_gain = 65535, pot_compress = 0\<rparr>
      initial_state)) = 99"
  by (simp add: loop_body_def readinto_def refresh_controls_def process_samples_def num_frames_def
      initial_state_def CHUNK_SIZE_def POT_READ_INTERVAL_def Let_def outcome_state_def
      process_frame_def compress_sample_def compress_sample_cfg_def envelope_update_def
      decode_sample_def read_word_def to_signed_def encode_sample_def write_word_def
      to_unsigned_def write_out_def clip_def max_val_def py_int_def comp_gain_def
      COMPRESS_THRESHOLD_def upt_rec nth_append)

subsection \<open>The sample codec\<close>

lemma or_push_bit8:
  assumes "0 \<le> a" "a < 2 ^ n"
  shows "a OR push_bit n (b::int) = a + push_bit n b"
proof -
  have "take_bit n a = a" using assms by (simp add: take_bit_int_eq_self)
  then have "\<not> bit a k" if "n \<le> k" for k
    using that by (metis bit_take_bit_iff not_le)
  then show ?thesis
    by (intro disjunctive_add_eq_or [symmetric] bit_eqI) (auto simp: bit_simps)
qed

lemma read_word_4:
  "read_word [b0, b1, b2, b3] 0 =
     uint b0 + 256 * uint b1 + 65536 * uint b2 + 16777216 * uint b3"
proof -
  have lt: "uint b < 2 ^ 8" for b :: byte
    using uint_lt2p [of b] by simp
  have "read_word [b0, b1, b2, b3] 0 =
      uint b0 OR push_bit 8 (uint b1 OR push_bit 8 (uint b2 OR push_bit 8 (uint b3)))"
    by (simp add: read_word_def push_bit_or)
  also have "\<dots> = uint b0 + push_bit 8 (uint b1 + push_bit 8 (uint b2 + push_bit 8 (uint b3)))"
    by (simp only: or_push_bit8 [OF uint_ge_0 lt])
  also have "\<dots> = uint b0 + 256 * uint b1 + 65536 * uint b2 + 16777216 * uint b3"
    by (simp add: push_bit_eq_mult)
  finally show ?thesis .
qed

lemma uint_byte_cases: "0 \<le> uint (b::byte) \<and> uint b < 256"
  using uint_lt2p [of b] by simp

lemma decode_arith:
  fixes u0 u1 u2 u3 :: int
  assumes "0 \<le> u0 \<and> u0 < 256" "0 \<le> u1 \<and> u1 < 256" "0 \<le> u2 \<and> u2 < 256" "0 \<le> u3 \<and> u3 < 256"
  shows "drop_bit 8 (to_signed (u0 + 256 * u1 + 65536 * u2 + 16777216 * u3)) =
     u1 + 256 * u2 + 65536 * u3 - (if u3 \<ge> 128 then 16777216 else 0)"
proof -
  have "(u0 + 256 * k) div 256 = k" for k
    using assms(1) by simp
  from this [of "u1 + 256 * u2 + 65536 * u3"] this [of "u1 + 256 * u2 + 65536 * u3 - 16777216"]
  show ?thesis
    using assms unfolding to_signed_def drop_bit_eq_div by (auto simp: algebra_simps)
qed

lemma decode_sample_4:
  "decode_sample [b0, b1, b2, b3] 0 =
     uint b1 + 256 * uint b2 + 65536 * uint b3 - (if uint b3 \<ge> 128 then 16777216 else 0)"
  unfolding decode_sample_def read_word_4
  by (rule decode_arith) (rule uint_byte_cases)+

lemma and_255: "(x::int) AND 255 = x mod 256"
  using take_bit_eq_mask [of 8 x] by (simp add: take_bit_eq_mod mask_numeral)

lemma encode_arith:
  fixes u1 u2 u3 :: int
  assumes "0 \<le> u1 \<and> u1 < 256" "0 \<le> u2 \<and> u2 < 256" "0 \<le> u3 \<and> u3 < 256"
  shows "to_unsigned (push_bit 8
           (u1 + 256 * u2 + 65536 * u3 - (if u3 \<ge> 128 then 16777216 else 0))) =
         256 * u1 + 65536 * u2 + 16777216 * u3"
  using assms by (simp add: to_unsigned_def push_bit_eq_mult)

lemma byte_of_sum:
  fixes u k :: int
  assumes "0 \<le> u \<and> u < 256"
  shows "(u + 256 * k) mod 256 = u" and "(u + 256 * k) div 256 = k"
  using assms by simp_all

lemma write_word_4:
  "write_word [b0, b1, b2, b3] 0 (256 * uint b1 + 65536 * uint b2 + 16777216 * uint b3) =
     [0, b1, b2, b3]"
proof -
  let ?z = "256 * uint b1 + 65536 * uint b2 + 16777216 * uint b3"
  have z0: "?z AND 0xFF = 0"
    by (simp add: and_255)
  have d1: "drop_bit 8 ?z = uint b1 + 256 * (uint b2 + 256 * uint b3)"
    by (simp add: drop_bit_eq_div)
  have d2: "drop_bit 16 ?z = uint b2 + 256 * uint b3"
    using byte_of_sum(2) [OF uint_byte_cases [of b1], of "uint b2 + 256 * uint b3"]
    by (simp add: drop_bit_eq_div div_mult2_eq [of _ 256 256, simplified])
  have d3: "drop_bit 24 ?z = uint b3"
    using byte_of_sum(2) [OF uint_byte_cases [of b1], of "uint b2 + 256 * uint b3"]
      byte_of_sum(2) [OF uint_byte_cases [of b2], of "uint b3"]
    by (simp add: drop_bit_eq_div div_mult2_eq [of _ 256 65536, simplified]
        div_mult2_eq [of _ 256 256, simplified])
  have m1: "drop_bit 8 ?z AND 0xFF = uint b1"
    unfolding d1 and_255 by (rule byte_of_sum(1) [OF uint_byte_cases])
  have m2: "drop_bit 16 ?z AND 0xFF = uint b2"
    unfolding d2 and_255 by (rule byte_of_sum(1) [OF uint_byte_cases])
  have m3: "drop_bit 24 ?z AND 0xFF = uint b3"
    unfolding d3 and_255 using uint_byte_cases [of b3] by simp
  show ?thesis
    unfolding write_word_def z0 m1 m2 m3 by simp
qed

lemma compress_identity:
  assumes "envelope_update attack release \<bar>sample\<bar> envelope \<le> threshold"
  shows "fst (compress_sample_cfg threshold ratio attack release sample envelope 1) = clip sample"
  using assms by (simp add: compress_sample_cfg_def comp_gain_def py_int_of_int Let_def)

text \<open>
  A threshold at or above both the envelope and the largest sample magnitude is never
  exceeded by the updated envelope, for coefficients in \<open>[0, 1]\<close>.
\<close>

lemma envelope_update_le:
  assumes "0 \<le> attack" "attack \<le> 1" and "0 \<le> release" "release \<le> 1"
    and "envelope \<le> threshold" and "real_of_int abs_sample \<le> threshold"
  shows "envelope_update attack release abs_sample envelope \<le> threshold"
proof -
  have "(1 - c) * envelope + c * real_of_int abs_sample \<le> (1 - c) * threshold + c * threshold"
    if "0 \<le> c" "c \<le> 1" for c :: real
    using that assms(5,6) by (intro add_mono mult_left_mono) simp_all
  moreover have "envelope + c * (real_of_int abs_sample - envelope) =
      (1 - c) * envelope + c * real_of_int abs_sample" for c :: real
    by (simp add: algebra_simps)
  moreover have "(1 - c) * threshold + c * threshold = threshold" for c :: real
    by (simp add: algebra_simps)
  ultimately show ?thesis
    using assms(1-4) by (simp add: envelope_update_def)
qed

lemma range_arith:
  fixes u1 u2 u3 :: int
  assumes "0 \<le> u1 \<and> u1 < 256" "0 \<le> u2 \<and> u2 < 256" "0 \<le> u3 \<and> u3 < 256"
  shows "- 8388608 \<le> u1 + 256 * u2 + 65536 * u3 - (if u3 \<ge> 128 then 16777216 else 0) \<and>
         u1 + 256 * u2 + 65536 * u3 - (if u3 \<ge> 128 then 16777216 else 0) \<le> 8388607"
  using assms by auto

lemma decode_sample_range:
  "- 8388608 \<le> decode_sample [b0, b1, b2, b3] 0 \<and> decode_sample [b0, b1, b2, b3] 0 \<le> 8388607"
  unfolding decode_sample_4 by (rule range_arith) (rule uint_byte_cases)+

lemma roundtrip:
  assumes "envelope_update attack release \<bar>decode_sample [b0, b1, b2, b3] 0\<bar> envelope \<le> threshold"
    and "decode_sample [b0, b1, b2, b3] 0 \<noteq> - (2 ^ 23)"
  shows "encode_sample [b0, b1, b2, b3] 0
           (fst (compress_sample_cfg threshold ratio attack release
                  (decode_sample [b0, b1, b2, b3] 0) envelope 1)) = [0, b1, b2, b3]"
proof -
  let ?x = "decode_sample [b0, b1, b2, b3] 0"
  from decode_sample_range [of b0 b1 b2 b3] assms(2)
  have "- max_val \<le> ?x" "?x \<le> max_val"
    by (simp_all add: max_val_def)
  then have "fst (compress_sample_cfg threshold ratio attack release ?x envelope 1) = ?x"
    by (simp add: compress_identity [OF assms(1)] clip_id)
  moreover have "encode_sample [b0, b1, b2, b3] 0 ?x = [0, b1, b2, b3]"
    unfolding encode_sample_def decode_sample_4
    by (simp only: encode_arith [OF uint_byte_cases uint_byte_cases uint_byte_cases] write_word_4)
  ultimately show ?thesis by simp
qed

lemma roundtrip_min:
  assumes "envelope_update attack release \<bar>decode_sample [b0, b1, b2, b3] 0\<bar> envelope \<le> threshold"
    and "decode_sample [b0, b1, b2, b3] 0 = - (2 ^ 23)"
  shows "encode_sample [b0, b1, b2, b3] 0
           (fst (compress_sample_cfg threshold ratio attack release
                  (decode_sample [b0, b1, b2, b3] 0) envelope 1)) = [0, 1, 0, 0x80]"
proof -
  have "fst (compress_sample_cfg threshold ratio attack release
                  (decode_sample [b0, b1, b2, b3] 0) envelope 1) =
        clip (decode_sample [b0, b1, b2, b3] 0)"
    by (rule compress_identity [OF assms(1)])
  also have "\<dots> = - 8388607"
    by (simp add: assms(2) clip_def max_val_def)
  finally show ?thesis
    by (simp add: encode_sample_def to_unsigned_def write_word_def)
qed

text \<open>
  C1, as amended: take any four bytes as a little-endian 32-bit container word. The
  decoded sample lies in \<open>[-2^23, 2^23 - 1]\<close>. Pass it through \<^verbatim>\<open>compress_sample\<close>
  with user gain 1 and a threshold that the updated envelope does not exceed, so that
  compression does not engage, and encode the result. Unless the sample is \<open>-2^23\<close>,
  the result is the original word with its low byte zeroed. The sample \<open>-2^23\<close> is
  clipped to \<open>-(2^23 - 1)\<close>, and the result is the word \<open>0x80000100\<close>.
\<close>

theorem decode_identity_encode:
  assumes "envelope_update attack release \<bar>decode_sample [b0, b1, b2, b3] 0\<bar> envelope \<le> threshold"
  shows "- (2 ^ 23) \<le> decode_sample [b0, b1, b2, b3] 0 \<and>
         decode_sample [b0, b1, b2, b3] 0 \<le> 2 ^ 23 - 1 \<and>
         encode_sample [b0, b1, b2, b3] 0
           (fst (compress_sample_cfg threshold ratio attack release
                  (decode_sample [b0, b1, b2, b3] 0) envelope 1)) =
         (if decode_sample [b0, b1, b2, b3] 0 = - (2 ^ 23)
          then [0, 1, 0, 0x80] else [0, b1, b2, b3])"
  using decode_sample_range [of b0 b1 b2 b3] roundtrip [OF assms] roundtrip_min [OF assms]
  by simp

theorem decode_identity_encode_witness:
  "encode_sample [0x12, 0x34, 0x56, 0xF8] 0
     (fst (compress_sample_cfg 8388608 3 (1 / 10) (1 / 100)
            (decode_sample [0x12, 0x34, 0x56, 0xF8] 0) 0 1)) = [0, 0x34, 0x56, 0xF8]"
proof -
  have d: "decode_sample [0x12, 0x34, 0x56, 0xF8] 0 = - 502220"
    by (simp add: decode_sample_def read_word_def to_signed_def)
  have "envelope_update (1 / 10) (1 / 100) \<bar>decode_sample [0x12, 0x34, 0x56, 0xF8] 0\<bar> 0 \<le> 8388608"
    by (simp add: d envelope_update_def)
  from decode_identity_encode [OF this, of 3] show ?thesis
    by (simp add: d)
qed

text \<open>
  The claim as first worded fails at the word \<open>0x80000000\<close>: compression is not
  engaged, and the re-encoded word is \<open>0x80000100\<close>.
\<close>

theorem minimum_sample_counterexample:
  "decode_sample [0, 0, 0, 0x80] 0 = - (2 ^ 23) \<and>
   comp_gain 8388608 3 (envelope_update (1 / 10) (1 / 100) \<bar>decode_sample [0, 0, 0, 0x80] 0\<bar> 0) = 1 \<and>
   encode_sample [0, 0, 0, 0x80] 0
     (fst (compress_sample_cfg 8388608 3 (1 / 10) (1 / 100)
            (decode_sample [0, 0, 0, 0x80] 0) 0 1)) = [0, 1, 0, 0x80] \<and>
   encode_sample [0, 0, 0, 0x80] 0
     (fst (compress_sample_cfg 8388608 3 (1 / 10) (1 / 100)
            (decode_sample [0, 0, 0, 0x80] 0) 0 1)) \<noteq> [0, 0, 0, 0x80]"
  by (simp add: compress_sample_cfg_def envelope_update_def comp_gain_def py_int_def clip_def
      max_val_def encode_sample_def decode_sample_def read_word_def to_signed_def to_unsigned_def
      write_word_def)

subsection \<open>The frame loop\<close>

lemma length_write_word: "length (write_word buf idx w) = length buf"
  by (simp add: write_word_def)

lemma drop_write_word: "idx + 4 \<le> m \<Longrightarrow> drop m (write_word buf idx w) = drop m buf"
  by (simp add: write_word_def drop_update_cancel)

lemma length_encode_sample: "length (encode_sample buf idx out) = length buf"
  by (simp add: encode_sample_def length_write_word)

lemma drop_encode_sample: "idx + 4 \<le> m \<Longrightarrow> drop m (encode_sample buf idx out) = drop m buf"
  by (simp add: encode_sample_def drop_write_word)

lemma process_frame_Inl:
  "length (audio_buffer s) < i * 8 + 8 \<Longrightarrow> process_frame i s = Inl (IndexError, s)"
  by (simp add: process_frame_def Let_def)

lemma process_frame_Inr:
  assumes "i * 8 + 8 \<le> length (audio_buffer s)"
  shows "process_frame i s =
     Inr (s\<lparr>envelope_left :=
              snd (compress_sample s (decode_sample (audio_buffer s) (i * 8)) (envelope_left s)
                    (current_gain s)),
            envelope_right :=
              snd (compress_sample s (decode_sample (audio_buffer s) (i * 8 + 4)) (envelope_right s)
                    (current_gain s)),
            audio_buffer :=
              encode_sample
                (encode_sample (audio_buffer s) (i * 8)
                   (fst (compress_sample s (decode_sample (audio_buffer s) (i * 8)) (envelope_left s)
                          (current_gain s))))
                (i * 8 + 4)
                (fst (compress_sample s (decode_sample (audio_buffer s) (i * 8 + 4)) (envelope_right s)
                       (current_gain s))),
            frames_done := frames_done s + 1\<rparr>)"
  using assms by (simp add: process_frame_def Let_def split_beta compress_sample_def)

lemma process_frame_kept:
  "in_deinit (outcome_state (process_frame i s)) = in_deinit s \<and>
   out_deinit (outcome_state (process_frame i s)) = out_deinit s \<and>
   dac_out (outcome_state (process_frame i s)) = dac_out s \<and>
   attack_coeff (outcome_state (process_frame i s)) = attack_coeff s \<and>
   release_coeff (outcome_state (process_frame i s)) = release_coeff s \<and>
   length (audio_buffer (outcome_state (process_frame i s))) = length (audio_buffer s)"
proof (cases "length (audio_buffer s) < i * 8 + 8")
  case True
  then show ?thesis
    by (simp add: process_frame_Inl outcome_state_def)
next
  case False
  then have "i * 8 + 8 \<le> length (audio_buffer s)" by simp
  then show ?thesis
    by (simp add: process_frame_Inr outcome_state_def length_encode_sample)
qed

lemma process_frame_ok:
  assumes "i * 8 + 8 \<le> length (audio_buffer s)"
  shows "\<exists>s'. process_frame i s = Inr s' \<and> frames_done s' = frames_done s + 1 \<and>
     drop (i * 8 + 8) (audio_buffer s') = drop (i * 8 + 8) (audio_buffer s)"
  by (simp add: process_frame_Inr [OF assms] drop_encode_sample)

lemma for_frames_append:
  "for_frames (xs @ ys) s =
     (case for_frames xs s of Inl raised \<Rightarrow> Inl raised | Inr s' \<Rightarrow> for_frames ys s')"
  by (induction xs arbitrary: s) (simp_all split: sum.splits)

lemma for_frames_kept:
  "in_deinit (outcome_state (for_frames xs s)) = in_deinit s \<and>
   out_deinit (outcome_state (for_frames xs s)) = out_deinit s \<and>
   dac_out (outcome_state (for_frames xs s)) = dac_out s \<and>
   attack_coeff (outcome_state (for_frames xs s)) = attack_coeff s \<and>
   release_coeff (outcome_state (for_frames xs s)) = release_coeff s \<and>
   length (audio_buffer (outcome_state (for_frames xs s))) = length (audio_buffer s)"
proof (induction xs arbitrary: s)
  case Nil
  show ?case by (simp add: outcome_state_def)
next
  case (Cons i rest)
  show ?case
  proof (cases "process_frame i s")
    case (Inl raised)
    with process_frame_kept [of i s] show ?thesis
      by (simp add: outcome_state_def)
  next
    case (Inr s')
    with process_frame_kept [of i s] Cons.IH [of s'] show ?thesis
      by (simp add: outcome_state_def)
  qed
qed

lemma drop_more: "drop m xs = drop m ys \<Longrightarrow> drop (m + n) xs = drop (m + n) ys"
  by (metis drop_drop add.commute)

lemma for_frames_upt:
  assumes "8 * k \<le> length (audio_buffer s)"
  shows "\<exists>s'. for_frames [0..<k] s = Inr s' \<and> frames_done s' = frames_done s + k \<and>
     drop (8 * k) (audio_buffer s') = drop (8 * k) (audio_buffer s)"
  using assms
proof (induction k)
  case 0
  show ?case by simp
next
  case (Suc k)
  then obtain s1 where s1: "for_frames [0..<k] s = Inr s1" "frames_done s1 = frames_done s + k"
    "drop (8 * k) (audio_buffer s1) = drop (8 * k) (audio_buffer s)"
    by auto
  from for_frames_kept [of "[0..<k]" s] s1(1)
  have len: "length (audio_buffer s1) = length (audio_buffer s)"
    by (simp add: outcome_state_def)
  with Suc.prems have "k * 8 + 8 \<le> length (audio_buffer s1)" by simp
  from process_frame_ok [OF this] obtain s2 where s2: "process_frame k s1 = Inr s2"
    "frames_done s2 = frames_done s1 + 1"
    "drop (k * 8 + 8) (audio_buffer s2) = drop (k * 8 + 8) (audio_buffer s1)"
    by auto
  from drop_more [OF s1(3), of 8]
  have "drop (k * 8 + 8) (audio_buffer s1) = drop (k * 8 + 8) (audio_buffer s)"
    by (simp add: ac_simps)
  with s2(3) have "drop (8 * Suc k) (audio_buffer s2) = drop (8 * Suc k) (audio_buffer s)"
    by (simp add: ac_simps)
  with s1 s2 show ?case
    by (simp add: for_frames_append)
qed

lemma readinto_fields:
  "fst (readinto bytes s) = min (length bytes) (length (audio_buffer s)) \<and>
   audio_buffer (snd (readinto bytes s)) =
     take (fst (readinto bytes s)) bytes @ drop (fst (readinto bytes s)) (audio_buffer s) \<and>
   length (audio_buffer (snd (readinto bytes s))) = length (audio_buffer s) \<and>
   frames_done (snd (readinto bytes s)) = frames_done s \<and>
   dac_out (snd (readinto bytes s)) = dac_out s \<and>
   in_deinit (snd (readinto bytes s)) = in_deinit s \<and>
   out_deinit (snd (readinto bytes s)) = out_deinit s"
  by (simp add: readinto_def Let_def)

lemma refresh_controls_fields:
  "audio_buffer (refresh_controls inp s) = audio_buffer s \<and>
   frames_done (refresh_controls inp s) = frames_done s \<and>
   dac_out (refresh_controls inp s) = dac_out s \<and>
   in_deinit (refresh_controls inp s) = in_deinit s \<and>
   out_deinit (refresh_controls inp s) = out_deinit s \<and>
   envelope_left (refresh_controls inp s) = envelope_left s \<and>
   envelope_right (refresh_controls inp s) = envelope_right s"
  by (simp add: refresh_controls_def read_pots_def Let_def)

lemma process_samples_ok:
  assumes "n \<le> length (audio_buffer s)"
  shows "\<exists>s'. process_samples n s = Inr s' \<and>
     frames_done s' = frames_done s + n div 8 \<and>
     length (audio_buffer s') = length (audio_buffer s) \<and>
     dac_out s' = dac_out s \<and>
     drop (n - n mod 8) (audio_buffer s') = drop (n - n mod 8) (audio_buffer s)"
proof -
  have eq: "n - n mod 8 = 8 * (n div 8)"
    by (simp add: minus_mod_eq_mult_div)
  with assms have "8 * (n div 8) \<le> length (audio_buffer s)"
    by linarith
  from for_frames_upt [OF this] obtain s' where s': "for_frames [0..<n div 8] s = Inr s'"
    "frames_done s' = frames_done s + n div 8"
    "drop (8 * (n div 8)) (audio_buffer s') = drop (8 * (n div 8)) (audio_buffer s)"
    by auto
  from for_frames_kept [of "[0..<n div 8]" s] s'(1)
  have "length (audio_buffer s') = length (audio_buffer s)" "dac_out s' = dac_out s"
    by (simp_all add: outcome_state_def)
  with s' show ?thesis
    by (simp add: process_samples_def num_frames_def eq)
qed



subsection \<open>The output write\<close>

lemma write_out_fields:
  "dac_out (write_out n s) = dac_out s @ [take n (audio_buffer s)] \<and>
   audio_buffer (write_out n s) = audio_buffer s \<and>
   in_deinit (write_out n s) = in_deinit s \<and>
   out_deinit (write_out n s) = out_deinit s"
  by (simp add: write_out_def)

text \<open>
  C10: a pass that reads \<open>n > 0\<close> bytes writes exactly the first \<open>n\<close> bytes of the
  buffer to the output stream, and the last \<open>n mod 8\<close> of them, which belong to no
  whole frame, are the bytes that were read, unchanged.
\<close>

theorem remainder_written:
  assumes "n = min (length (data inp)) (length (audio_buffer s))" and "0 < n"
  shows "\<exists>s'. loop_body inp s = Inr s' \<and>
     dac_out s' = dac_out s @ [take n (audio_buffer s')] \<and>
     length (take n (audio_buffer s')) = n \<and>
     drop (n - n mod 8) (take n (audio_buffer s')) = drop (n - n mod 8) (take n (data inp)) \<and>
     length (drop (n - n mod 8) (take n (data inp))) = n mod 8"
proof -
  let ?s1 = "snd (readinto (data inp) s)"
  let ?s2 = "refresh_controls inp ?s1"
  let ?k = "n - n mod 8"
  from readinto_fields [of "data inp" s] assms(1)
  have r: "fst (readinto (data inp) s) = n"
    "audio_buffer ?s1 = take n (data inp) @ drop n (audio_buffer s)"
    "length (audio_buffer ?s1) = length (audio_buffer s)" "dac_out ?s1 = dac_out s"
    by simp_all
  from refresh_controls_fields [of inp ?s1] r
  have c: "audio_buffer ?s2 = take n (data inp) @ drop n (audio_buffer s)"
    "length (audio_buffer ?s2) = length (audio_buffer s)" "dac_out ?s2 = dac_out s"
    by simp_all
  from assms(1) c(2) have "n \<le> length (audio_buffer ?s2)"
    by simp
  from process_samples_ok [OF this] obtain s3 where s3: "process_samples n ?s2 = Inr s3"
    "length (audio_buffer s3) = length (audio_buffer ?s2)" "dac_out s3 = dac_out ?s2"
    "drop ?k (audio_buffer s3) = drop ?k (audio_buffer ?s2)"
    by auto
  have body: "loop_body inp s = Inr (write_out n s3)"
    using r(1) s3(1) assms(2) by (simp add: loop_body_def split_beta)
  have len: "length (take n (data inp)) = n"
    using assms(1) by simp
  have "drop ?k (take n (audio_buffer s3)) = take (n - ?k) (drop ?k (audio_buffer s3))"
    by (simp add: drop_take)
  also have "\<dots> = drop ?k (take n (audio_buffer ?s2))"
    by (simp add: s3(4) drop_take)
  also have "\<dots> = drop ?k (take n (data inp))"
    using len by (simp add: c(1))
  finally have tail: "drop ?k (take n (audio_buffer s3)) = drop ?k (take n (data inp))" .
  from assms(1) s3(2) c(2) have "length (take n (audio_buffer s3)) = n"
    by simp
  moreover from len have "length (drop ?k (take n (data inp))) = n mod 8"
    by simp
  ultimately show ?thesis
    using body tail s3(3) c(3) write_out_fields [of n s3] by simp
qed

theorem remainder_written_witness:
  "\<exists>s'. loop_body \<lparr>data = [1, 2, 3, 4, 5, 6, 7, 8, 9, 10, 11], pot_gain = 0, pot_compress = 0\<rparr>
            initial_state = Inr s' \<and>
     dac_out s' = [take 11 (audio_buffer s')] \<and>
     drop 8 (take 11 (audio_buffer s')) = [9, 10, 11]"
  using remainder_written [of 11
      "\<lparr>data = [1, 2, 3, 4, 5, 6, 7, 8, 9, 10, 11], pot_gain = 0, pot_compress = 0\<rparr>" initial_state]
  by (auto simp: initial_state_def CHUNK_SIZE_def)

subsection \<open>Release of the two streams\<close>

lemma loop_body_streams:
  "in_deinit (outcome_state (loop_body inp s)) = in_deinit s \<and>
   out_deinit (outcome_state (loop_body inp s)) = out_deinit s"
proof -
  let ?n = "fst (readinto (data inp) s)"
  let ?s2 = "refresh_controls inp (snd (readinto (data inp) s))"
  have s2: "in_deinit ?s2 = in_deinit s \<and> out_deinit ?s2 = out_deinit s"
    by (simp add: refresh_controls_fields readinto_fields)
  show ?thesis
  proof (cases "process_samples ?n ?s2")
    case (Inl raised)
    with for_frames_kept [of "[0..<num_frames ?n]" ?s2] s2 show ?thesis
      by (simp add: loop_body_def split_beta outcome_state_def process_samples_def readinto_fields)
  next
    case (Inr s3)
    with for_frames_kept [of "[0..<num_frames ?n]" ?s2] s2 show ?thesis
      by (simp add: loop_body_def split_beta outcome_state_def process_samples_def readinto_fields
          write_out_fields)
  qed
qed

lemma for_frames_raised:
  "for_frames xs s = Inl raised \<Longrightarrow> snd raised = outcome_state (for_frames xs s)"
  by (simp add: outcome_state_def split_beta)

lemma for_frames_returned:
  "for_frames xs s = Inr s' \<Longrightarrow> s' = outcome_state (for_frames xs s)"
  by (simp add: outcome_state_def)

lemma interrupted_body_streams:
  "in_deinit (snd (interrupted_body p inp s)) = in_deinit s \<and>
   out_deinit (snd (interrupted_body p inp s)) = out_deinit s"
proof -
  let ?n = "fst (readinto (data inp) s)"
  let ?s2 = "refresh_controls inp (snd (readinto (data inp) s))"
  have s2: "in_deinit ?s2 = in_deinit s \<and> out_deinit ?s2 = out_deinit s"
    by (simp add: refresh_controls_fields readinto_fields)
  have frames: "in_deinit (outcome_state (for_frames xs ?s2)) = in_deinit s \<and>
      out_deinit (outcome_state (for_frames xs ?s2)) = out_deinit s" for xs
    using for_frames_kept [of xs ?s2] s2 by simp
  show ?thesis
  proof (cases p)
    case BeforeRead
    then show ?thesis by (simp add: interrupted_body_def)
  next
    case AfterRead
    then show ?thesis by (simp add: interrupted_body_def readinto_fields)
  next
    case (InChunk k)
    then show ?thesis
      using frames [of "[0..<min k (num_frames ?n)]"]
      by (auto simp: interrupted_body_def split_beta readinto_fields
          dest: for_frames_raised for_frames_returned split: sum.splits)
  next
    case BeforeWrite
    then show ?thesis
      using frames [of "[0..<num_frames ?n]"]
      by (auto simp: interrupted_body_def split_beta readinto_fields process_samples_def
          dest: for_frames_raised for_frames_returned split: sum.splits)
  qed
qed

lemma while_true_streams:
  "in_deinit (snd (while_true passes final p s)) = in_deinit s \<and>
   out_deinit (snd (while_true passes final p s)) = out_deinit s"
proof (induction passes arbitrary: s)
  case Nil
  show ?case by (simp add: interrupted_body_streams)
next
  case (Cons inp rest)
  show ?case
  proof (cases "loop_body inp s")
    case (Inl raised)
    with loop_body_streams [of inp s] show ?thesis
      by (simp add: outcome_state_def split_beta)
  next
    case (Inr s')
    with loop_body_streams [of inp s] Cons.IH [of s'] show ?thesis
      by (simp add: outcome_state_def)
  qed
qed

text \<open>
  C9: whatever passes the loop completed and wherever in the last pass the interrupt
  (or an exception of the pass itself) arrived, neither stream is released inside the
  \<^verbatim>\<open>try\<close> block, and at the end of the program each of the two streams has been
  released exactly once.
\<close>

theorem streams_released_once:
  "in_deinit (snd (while_true passes final p s)) = in_deinit s \<and>
   out_deinit (snd (while_true passes final p s)) = out_deinit s \<and>
   in_deinit (snd (main passes final p s)) = in_deinit s + 1 \<and>
   out_deinit (snd (main passes final p s)) = out_deinit s + 1"
  using while_true_streams [of passes final p s]
  by (simp add: main_def split_beta Let_def)

subsection \<open>The envelopes stay non-negative\<close>

lemma envelope_update_nonneg:
  assumes "0 \<le> envelope" and "0 < attack" "attack \<le> 1" and "0 < release" "release \<le> 1"
    and "0 \<le> abs_sample"
  shows "0 \<le> envelope_update attack release abs_sample envelope"
proof -
  have "0 \<le> (1 - c) * envelope + c * real_of_int abs_sample" if "0 < c" "c \<le> 1" for c :: real
    using that assms(1,6) by simp
  moreover have "envelope + c * (real_of_int abs_sample - envelope) =
      (1 - c) * envelope + c * real_of_int abs_sample" for c :: real
    by (simp add: algebra_simps)
  ultimately show ?thesis
    using assms(2-5) by (simp add: envelope_update_def)
qed

lemma compress_sample_envelope_nonneg:
  assumes "unit_coeffs s" and "0 \<le> envelope"
  shows "0 \<le> snd (compress_sample s sample envelope gain)"
  using assms envelope_update_nonneg [of envelope "attack_coeff s" "release_coeff s" "\<bar>sample\<bar>"]
  by (simp add: compress_sample_def compress_sample_cfg_def unit_coeffs_def Let_def)

lemma read_pots_unit_coeffs:
  assumes "u16 compress_raw"
  shows "unit_coeffs (snd (read_pots gain_raw compress_raw s))"
proof -
  define t where "t = MIN_TIME_MS + real_of_int compress_raw / 65535 * (MAX_TIME_MS - MIN_TIME_MS)"
  from assms have "0 \<le> real_of_int compress_raw / 65535 * 195"
    by (simp add: u16_def)
  then have t: "5 \<le> t"
    by (simp add: t_def MIN_TIME_MS_def MAX_TIME_MS_def)
  then have pos: "0 < t / 1000 * SAMPLE_RATE" and big: "1 \<le> t / 1000 * SAMPLE_RATE"
    by (simp_all add: SAMPLE_RATE_def)
  from pos big have "0 < 1 / (t / 1000 * SAMPLE_RATE)" "1 / (t / 1000 * SAMPLE_RATE) \<le> 1"
    by (simp_all add: divide_le_eq_1)
  with pos show ?thesis
    by (simp add: read_pots_def Let_def unit_coeffs_def t_def)
qed

lemma initial_state_invariant: "env_invariant initial_state"
  by (simp add: env_invariant_def unit_coeffs_def initial_state_def)

lemma readinto_invariant: "env_invariant (snd (readinto bytes s)) = env_invariant s"
  by (simp add: readinto_def Let_def env_invariant_def unit_coeffs_def)

lemma refresh_controls_invariant:
  assumes "env_invariant s" and "u16 (pot_compress inp)"
  shows "env_invariant (refresh_controls inp s)"
proof (cases "loop_count s + 1 \<ge> POT_READ_INTERVAL")
  case True
  then have "refresh_controls inp s =
      snd (read_pots (pot_gain inp) (pot_compress inp) (s\<lparr>loop_count := 0\<rparr>))"
    by (simp add: refresh_controls_def Let_def)
  moreover have "envelope_left (snd (read_pots g c s')) = envelope_left s' \<and>
      envelope_right (snd (read_pots g c s')) = envelope_right s'" for g c s'
    by (simp add: read_pots_def Let_def)
  ultimately show ?thesis
    using assms read_pots_unit_coeffs [OF assms(2), of "pot_gain inp" "s\<lparr>loop_count := 0\<rparr>"]
    by (simp add: env_invariant_def)
next
  case False
  with assms(1) show ?thesis
    by (simp add: refresh_controls_def Let_def env_invariant_def unit_coeffs_def)
qed

lemma process_frame_invariant:
  assumes "env_invariant s"
  shows "env_invariant (outcome_state (process_frame i s))"
proof (cases "length (audio_buffer s) < i * 8 + 8")
  case True
  with assms show ?thesis
    by (simp add: process_frame_Inl outcome_state_def)
next
  case False
  then have "i * 8 + 8 \<le> length (audio_buffer s)" by simp
  with assms show ?thesis
    by (simp add: process_frame_Inr outcome_state_def env_invariant_def
        compress_sample_envelope_nonneg unit_coeffs_def)
qed

lemma for_frames_invariant:
  "env_invariant s \<Longrightarrow> env_invariant (outcome_state (for_frames xs s))"
proof (induction xs arbitrary: s)
  case Nil
  then show ?case by (simp add: outcome_state_def)
next
  case (Cons i rest)
  show ?case
  proof (cases "process_frame i s")
    case (Inl raised)
    with process_frame_invariant [OF Cons.prems, of i] show ?thesis
      by (simp add: outcome_state_def)
  next
    case (Inr s')
    with process_frame_invariant [OF Cons.prems, of i] have "env_invariant s'"
      by (simp add: outcome_state_def)
    from Cons.IH [OF this] Inr show ?thesis
      by (simp add: outcome_state_def)
  qed
qed

lemma write_out_invariant: "env_invariant (write_out n s) = env_invariant s"
  by (simp add: write_out_def env_invariant_def unit_coeffs_def)

lemma loop_body_invariant:
  assumes "env_invariant s" and "u16 (pot_compress inp)"
  shows "env_invariant (outcome_state (loop_body inp s))"
proof -
  let ?n = "fst (readinto (data inp) s)"
  let ?s1 = "snd (readinto (data inp) s)"
  let ?s2 = "refresh_controls inp ?s1"
  from assms have s1: "env_invariant ?s1"
    by (simp add: readinto_invariant)
  from refresh_controls_invariant [OF this assms(2)]
  have "env_invariant (outcome_state (for_frames [0..<num_frames ?n] ?s2))"
    by (rule for_frames_invariant)
  with s1 show ?thesis
    by (cases "for_frames [0..<num_frames ?n] ?s2")
      (simp_all add: loop_body_def split_beta outcome_state_def process_samples_def
        write_out_invariant)
qed

lemma interrupted_body_invariant:
  assumes "env_invariant s" and "u16 (pot_compress inp)"
  shows "env_invariant (snd (interrupted_body p inp s))"
proof -
  let ?n = "fst (readinto (data inp) s)"
  let ?s1 = "snd (readinto (data inp) s)"
  let ?s2 = "refresh_controls inp ?s1"
  from assms have s1: "env_invariant ?s1"
    by (simp add: readinto_invariant)
  from refresh_controls_invariant [OF this assms(2)]
  have frames: "env_invariant (outcome_state (for_frames xs ?s2))" for xs
    by (rule for_frames_invariant)
  show ?thesis
  proof (cases p)
    case BeforeRead
    with assms show ?thesis by (simp add: interrupted_body_def)
  next
    case AfterRead
    with s1 show ?thesis by (simp add: interrupted_body_def)
  next
    case (InChunk k)
    then show ?thesis
      using frames [of "[0..<min k (num_frames ?n)]"] s1
      by (auto simp: interrupted_body_def split_beta
          dest: for_frames_raised for_frames_returned split: sum.splits)
  next
    case BeforeWrite
    then show ?thesis
      using frames [of "[0..<num_frames ?n]"] s1
      by (auto simp: interrupted_body_def split_beta process_samples_def
          dest: for_frames_raised for_frames_returned split: sum.splits)
  qed
qed

lemma while_true_invariant:
  assumes "env_invariant s" and "\<forall>inp \<in> set (final # passes). u16 (pot_compress inp)"
  shows "env_invariant (snd (while_true passes final p s))"
  using assms
proof (induction passes arbitrary: s)
  case Nil
  then show ?case by (simp add: interrupted_body_invariant)
next
  case (Cons inp rest)
  then have inv: "env_invariant (outcome_state (loop_body inp s))"
    by (simp add: loop_body_invariant)
  show ?case
  proof (cases "loop_body inp s")
    case (Inl raised)
    with inv show ?thesis
      by (simp add: outcome_state_def split_beta)
  next
    case (Inr s')
    with inv have "env_invariant s'"
      by (simp add: outcome_state_def)
    with Cons.IH [of s'] Cons.prems(2) Inr show ?thesis
      by simp
  qed
qed

text \<open>
  C8: both envelopes start at 0. Both coefficients are in \<open>(0, 1]\<close> at the start and
  after every \<^verbatim>\<open>read_pots\<close> whose compression reading is in the 16-bit range. With
  coefficients in \<open>(0, 1]\<close>, one \<^verbatim>\<open>compress_sample\<close> update takes a non-negative
  envelope to a non-negative envelope. So for every run of the loop from the initial
  state, with any audio bytes and 16-bit readings, both envelopes are non-negative at
  the place where the run is cut short.
\<close>

theorem envelopes_nonnegative:
  "envelope_left initial_state = 0 \<and> envelope_right initial_state = 0 \<and>
   unit_coeffs initial_state \<and>
   (\<forall>gain_raw compress_raw s. u16 compress_raw \<longrightarrow>
      unit_coeffs (snd (read_pots gain_raw compress_raw s))) \<and>
   (\<forall>s sample envelope gain. unit_coeffs s \<and> 0 \<le> envelope \<longrightarrow>
      0 \<le> snd (compress_sample s sample envelope gain)) \<and>
   (\<forall>passes final p. (\<forall>inp \<in> set (final # passes). u16 (pot_compress inp)) \<longrightarrow>
      0 \<le> envelope_left (snd (while_true passes final p initial_state)) \<and>
      0 \<le> envelope_right (snd (while_true passes final p initial_state)))"
proof -
  have "0 \<le> envelope_left (snd (while_true passes final p initial_state)) \<and>
      0 \<le> envelope_right (snd (while_true passes final p initial_state))"
    if "\<forall>inp \<in> set (final # passes). u16 (pot_compress inp)" for passes final p
    using while_true_invariant [OF initial_state_invariant that, of p]
    by (simp add: env_invariant_def)
  moreover have "envelope_left initial_state = 0 \<and> envelope_right initial_state = 0 \<and>
      unit_coeffs initial_state"
    by (simp add: initial_state_def unit_coeffs_def)
  ultimately show ?thesis
    using read_pots_unit_coeffs compress_sample_envelope_nonneg by blast
qed

theorem envelopes_nonnegative_witness:
  "u16 65535 \<and>
   unit_coeffs (snd (read_pots 0 65535 initial_state)) \<and>
   0 \<le> snd (compress_sample initial_state (- 5000) 0 1) \<and>
   0 \<le> envelope_left (snd (while_true
          [\<lparr>data = [0, 0, 0, 0x40, 0, 0, 0, 0xC0], pot_gain = 0, pot_compress = 65535\<rparr>]
          \<lparr>data = [], pot_gain = 0, pot_compress = 0\<rparr> BeforeRead initial_state))"
proof -
  have a: "u16 65535" and b: "unit_coeffs initial_state \<and> (0::real) \<le> 0"
    and c: "\<forall>inp \<in> set [\<lparr>data = [], pot_gain = 0, pot_compress = 0\<rparr>,
           \<lparr>data = [0, 0, 0, 0x40, 0, 0, 0, 0xC0], pot_gain = 0, pot_compress = 65535\<rparr>].
         u16 (pot_compress inp)"
    by (simp_all add: u16_def unit_coeffs_def initial_state_def)
  from envelopes_nonnegative a b c show ?thesis
    by blast
qed

end
